theory Spec2Isabelle
  imports Complex_Main "HOL-Library.Sublist" "HOL-Library.Log_Nat"
begin

section \<open>Strings\<close>

text \<open>
  A JavaScript string is a sequence of code units. The model keeps the code units below
  256 (the Latin-1 block), one \<^typ>\<open>char\<close> each; text outside that block is not modelled.
  On that block \<open>String.prototype.trim\<close> strips TAB, LF, VT, FF, CR, SPACE and NBSP from
  both ends, and \<open>toLowerCase\<close> maps A-Z and the accented capitals 0xC0-0xDE (the
  multiplication sign 0xD7 apart) to the code unit 32 higher.
\<close>

definition isWhiteSpace :: "char \<Rightarrow> bool" where
  "isWhiteSpace c =
     (let n = (of_char c :: nat)
      in (9 \<le> n \<and> n \<le> 13) \<or> n = 32 \<or> n = 160)"

definition trim :: "string \<Rightarrow> string" where
  "trim s = rev (dropWhile isWhiteSpace (rev (dropWhile isWhiteSpace s)))"

definition lowerChar :: "char \<Rightarrow> char" where
  "lowerChar c =
     (let n = (of_char c :: nat)
      in if (65 \<le> n \<and> n \<le> 90) \<or> (192 \<le> n \<and> n \<le> 222 \<and> n \<noteq> 215)
         then char_of (n + 32) else c)"

definition toLowerCase :: "string \<Rightarrow> string" where
  "toLowerCase s = map lowerChar s"

text \<open>
  \<open>s.includes(q)\<close>: some position of \<open>s\<close> starts with \<open>q\<close>. The empty string is
  included in every string, at position 0.
\<close>

fun includes_str :: "string \<Rightarrow> string \<Rightarrow> bool" where
  "includes_str [] q = (q = [])"
| "includes_str (c # cs) q = (prefix q (c # cs) \<or> includes_str cs q)"

section \<open>Data model\<close>

text \<open>
  The task record as the API returns it: \<open>{id, title, description, priority, completed,
  createdAt}\<close>. The identifier is a number compared with \<open>===\<close>; the priority is the
  string the select box holds (\<open>'low'\<close>, \<open>'medium'\<close>, \<open>'high'\<close>).
\<close>

record task =
  id_task :: nat
  title :: string
  description :: string
  priority :: string
  completed :: bool
  createdAt :: string

text \<open>The \<open>useState\<close> cells of the \<open>App\<close> component, in the order they are declared.\<close>

record app =
  tasks :: "task list"
  title :: string
  description :: string
  priority :: string
  loading :: bool
  error :: string
  searchQuery :: string
  filterStatus :: string
  currentTheme :: string
  showStats :: bool

text \<open>
  The initial values of the cells. The banner texts are kept without their leading
  pictograph.
\<close>

definition initial :: app where
  "initial = \<lparr>tasks = [], title = [], description = [], priority = ''medium'',
     loading = False, error = [], searchQuery = [], filterStatus = ''all'',
     currentTheme = ''classic'', showStats = True\<rparr>"

definition msgBackend :: string where
  "msgBackend = ''Backend not running. Start the server!''"

definition msgFields :: string where
  "msgFields = ''Please fill in both fields''"

definition msgAdd :: string where
  "msgAdd = ''Failed to add task''"

definition msgUpdate :: string where
  "msgUpdate = ''Failed to update task''"

definition msgDelete :: string where
  "msgDelete = ''Failed to delete task''"

section \<open>Network\<close>

text \<open>
  A call of \<open>fetch\<close> names a method, an endpoint under \<open>API_URL\<close> and, for POST, the
  JSON body \<open>{title, description, priority}\<close>.
\<close>

datatype http_method = GET | POST | PUT | DELETE

datatype endpoint = TasksUrl | TaskUrl nat

datatype request = Request http_method endpoint "(string \<times> string \<times> string) option"

text \<open>
  What comes back: the promise of \<open>fetch\<close> rejects (\<open>NetworkFailure\<close>), or it resolves
  to a response with its \<open>ok\<close> flag and the result of \<open>response.json()\<close>, which is
  \<open>None\<close> when the body does not parse.
\<close>

datatype 'a response = NetworkFailure | HttpResponse bool "'a option"

text \<open>
  An event handler either returns without awaiting anything (\<open>Finished\<close>, with the state
  it leaves), or it awaits one request: \<open>Pending\<close> holds the state shown while the
  request is in flight, the request, and the rest of the handler. The rest of the handler
  takes the response and the state current when the response arrives; its state setters
  act on that state, while \<open>tasks\<close> read inside the handler is the collection captured
  when the handler started.
\<close>

datatype 'a outcome =
    Finished app
  | Pending app request "'a response \<Rightarrow> app \<Rightarrow> app"

text \<open>
  What an outcome shows while it waits, which requests it has issued, and what the rest
  of the handler does to the state current when the response arrives. \<open>settle\<close> is the
  handler run with nothing else happening while its request is in flight.
\<close>

fun shown :: "'a outcome \<Rightarrow> app" where
  "shown (Finished s) = s"
| "shown (Pending s req k) = s"

fun issued :: "'a outcome \<Rightarrow> request list" where
  "issued (Finished s) = []"
| "issued (Pending s req k) = [req]"

fun resume :: "'a outcome \<Rightarrow> 'a response \<Rightarrow> app \<Rightarrow> app" where
  "resume (Finished s) r cur = cur"
| "resume (Pending s req k) r cur = k r cur"

definition settle :: "'a outcome \<Rightarrow> 'a response \<Rightarrow> app" where
  "settle out r = resume out r (shown out)"

section \<open>API functions\<close>

definition fetchTasks :: "app \<Rightarrow> task list outcome" where
  "fetchTasks s =
     Pending (s\<lparr>loading := True\<rparr>) (Request GET TasksUrl None)
       (\<lambda>response cur.
          (let caught = cur\<lparr>error := msgBackend\<rparr>
           in case response of
                NetworkFailure \<Rightarrow> caught
              | HttpResponse ok js \<Rightarrow>
                  if \<not> ok then caught
                  else (case js of
                          None \<Rightarrow> caught
                        | Some data \<Rightarrow> cur\<lparr>tasks := data, error := []\<rparr>))
          \<lparr>loading := False\<rparr>)"

definition addTask :: "app \<Rightarrow> task outcome" where
  "addTask s =
     (if trim (title s) = [] \<or> trim (description s) = []
      then Finished (s\<lparr>error := msgFields\<rparr>)
      else Pending (s\<lparr>loading := True\<rparr>)
             (Request POST TasksUrl (Some (title s, description s, priority s)))
             (\<lambda>response cur.
                (let caught = cur\<lparr>error := msgAdd\<rparr>
                 in case response of
                      NetworkFailure \<Rightarrow> caught
                    | HttpResponse ok js \<Rightarrow>
                        if \<not> ok then caught
                        else (case js of
                                None \<Rightarrow> caught
                              | Some newTask \<Rightarrow>
                                  cur\<lparr>tasks := newTask # tasks s, title := [],
                                    description := [], priority := ''medium'',
                                    error := []\<rparr>))
                \<lparr>loading := False\<rparr>))"

definition toggleTask :: "nat \<Rightarrow> app \<Rightarrow> task outcome" where
  "toggleTask i s =
     Pending s (Request PUT (TaskUrl i) None)
       (\<lambda>response cur.
          (let caught = cur\<lparr>error := msgUpdate\<rparr>
           in case response of
                NetworkFailure \<Rightarrow> caught
              | HttpResponse ok js \<Rightarrow>
                  if \<not> ok then caught
                  else (case js of
                          None \<Rightarrow> caught
                        | Some updatedTask \<Rightarrow>
                            cur\<lparr>tasks :=
                              map (\<lambda>task. if id_task task = i then updatedTask else task)
                                (tasks s)\<rparr>)))"

definition deleteTask :: "nat \<Rightarrow> app \<Rightarrow> 'a outcome" where
  "deleteTask i s =
     Pending s (Request DELETE (TaskUrl i) None)
       (\<lambda>response cur.
          (let caught = cur\<lparr>error := msgDelete\<rparr>
           in case response of
                NetworkFailure \<Rightarrow> caught
              | HttpResponse ok js \<Rightarrow>
                  if \<not> ok then caught
                  else cur\<lparr>tasks := filter (\<lambda>task. id_task task \<noteq> i) (tasks s),
                         error := []\<rparr>))"

section \<open>Helper functions\<close>

definition matchesSearch :: "string \<Rightarrow> task \<Rightarrow> bool" where
  "matchesSearch query task =
     (includes_str (toLowerCase (task.title task)) (toLowerCase query) \<or>
      includes_str (toLowerCase (task.description task)) (toLowerCase query))"

definition matchesFilter :: "string \<Rightarrow> task \<Rightarrow> bool" where
  "matchesFilter status task =
     (status = ''all'' \<or>
      (status = ''active'' \<and> \<not> task.completed task) \<or>
      (status = ''completed'' \<and> task.completed task))"

definition filteredTasks :: "task list \<Rightarrow> string \<Rightarrow> string \<Rightarrow> task list" where
  "filteredTasks ts query status =
     filter (\<lambda>task. matchesSearch query task \<and> matchesFilter status task) ts"

record stats_rec =
  total :: nat
  completed :: nat
  active :: nat
  highPriority :: nat

definition stats :: "task list \<Rightarrow> stats_rec" where
  "stats ts =
     \<lparr>total = length ts,
      completed = length (filter (\<lambda>t. task.completed t) ts),
      active = length (filter (\<lambda>t. \<not> task.completed t) ts),
      highPriority =
        length (filter (\<lambda>t. task.priority t = ''high'' \<and> \<not> task.completed t) ts)\<rparr>"

section \<open>Numbers\<close>

text \<open>
  A JavaScript number is an IEEE 754 double. The finite doubles are rationals, so the
  model computes on \<^typ>\<open>rat\<close> and rounds each result to the nearest double: 53
  significant bits, ties to the even significand. \<open>expo x\<close> is the binary exponent of a
  positive \<open>x\<close> (\<open>2 powi expo x \<le> x < 2 powi (expo x + 1)\<close>, lemma \<open>expo_bounds\<close>),
  read off the bit lengths of numerator and denominator. The exponent range of doubles
  is not modelled: the quotients and products computed here lie between \<open>2 powi - 32\<close>
  and 100, far from overflow and underflow. Operands are array lengths, so no negative
  zero arises.
\<close>

definition expo :: "rat \<Rightarrow> int" where
  "expo x =
     (let (p, q) = quotient_of x;
          d = bitlen p - bitlen q
      in if 2 powi d \<le> x then d else d - 1)"

definition roundTiesToEven :: "rat \<Rightarrow> int" where
  "roundTiesToEven x =
     (let n = \<lfloor>x\<rfloor>; r = x - of_int n
      in if r < 1 / 2 then n
         else if 1 / 2 < r then n + 1
         else if even n then n else n + 1)"

definition double :: "rat \<Rightarrow> rat" where
  "double x =
     (if x = 0 then 0
      else (let u = 2 powi (expo \<bar>x\<bar> - 52)
            in sgn x * of_int (roundTiesToEven (\<bar>x\<bar> / u)) * u))"

text \<open>
  The values an expression over two array lengths can take: a finite double, or what a
  division by zero gives (\<open>0 / 0\<close> is \<open>NaN\<close>, \<open>n / 0\<close> is \<open>Infinity\<close> for positive
  \<open>n\<close>). Both propagate through \<open>* 100\<close> and \<open>Math.round\<close>. \<open>Math.round\<close> returns the
  nearest integer, the one towards plus infinity on a tie, which is \<^const>\<open>round\<close>.
\<close>

datatype number = NaN | PosInfinity | Num rat

definition number_div :: "nat \<Rightarrow> nat \<Rightarrow> number" where
  "number_div a b =
     (if b = 0 then (if a = 0 then NaN else PosInfinity)
      else Num (double (of_nat a / of_nat b)))"

fun times100 :: "number \<Rightarrow> number" where
  "times100 NaN = NaN"
| "times100 PosInfinity = PosInfinity"
| "times100 (Num x) = Num (double (x * 100))"

fun Math_round :: "number \<Rightarrow> number" where
  "Math_round NaN = NaN"
| "Math_round PosInfinity = PosInfinity"
| "Math_round (Num x) = Num (of_int (round x))"

definition completionPercentage :: "task list \<Rightarrow> number" where
  "completionPercentage ts =
     (if 0 < total (stats ts)
      then Math_round (times100 (number_div (stats_rec.completed (stats ts)) (total (stats ts))))
      else Num 0)"

section \<open>Example data\<close>

text \<open>
  The two records of the statistics scenario, two records titled Alpha and Beta, and
  three states of the component: a form whose title is blank, a filled form, and a
  collection shown under the banner of a failed update.
\<close>

definition taskA :: task where
  "taskA = \<lparr>id_task = 1, title = ''A'', description = ''first'', priority = ''high'',
     completed = False, createdAt = ''2024-01-01''\<rparr>"

definition taskB :: task where
  "taskB = \<lparr>id_task = 2, title = ''B'', description = ''second'', priority = ''low'',
     completed = True, createdAt = ''2024-01-02''\<rparr>"

definition taskAlpha :: task where
  "taskAlpha = \<lparr>id_task = 3, title = ''Alpha'', description = ''first'',
     priority = ''medium'', completed = False, createdAt = ''2024-01-03''\<rparr>"

definition taskBeta :: task where
  "taskBeta = \<lparr>id_task = 4, title = ''Beta'', description = ''second'',
     priority = ''medium'', completed = False, createdAt = ''2024-01-04''\<rparr>"

definition blankForm :: app where
  "blankForm = initial\<lparr>tasks := [taskA], title := ''   '', description := ''write''\<rparr>"

definition filledForm :: app where
  "filledForm = initial\<lparr>tasks := [taskA], title := '' B '', description := ''second'',
     priority := ''low'', error := msgAdd\<rparr>"

definition staleBanner :: app where
  "staleBanner = initial\<lparr>tasks := [taskA, taskB], error := msgUpdate\<rparr>"

section \<open>Statistics\<close>

lemma length_filter_split:
  "length (filter P xs) + length (filter (\<lambda>x. \<not> P x) xs) = length xs"
  by (induction xs) simp_all

lemma length_filter_conj_le:
  "length (filter (\<lambda>x. Q x \<and> P x) xs) \<le> length (filter P xs)"
  by (induction xs) simp_all

text \<open>
  C1. For every task collection (each record's completed flag is a boolean, by the type
  of the record) the derived statistics satisfy \<open>active + completed = total\<close> and
  \<open>highPriority \<le> active\<close>, where \<open>total\<close> is the length of the collection,
  \<open>completed\<close> counts the records whose flag is true, \<open>active\<close> those whose flag is
  false, and \<open>highPriority\<close> those with priority \<open>'high'\<close> whose flag is false.
  The counts are over positions, so equal records are counted once each.
\<close>

theorem stats_invariant:
  "stats_rec.active (stats ts) + stats_rec.completed (stats ts) = total (stats ts)
   \<and> highPriority (stats ts) \<le> stats_rec.active (stats ts)
   \<and> total (stats ts) = length ts
   \<and> stats_rec.completed (stats ts) = card {i. i < length ts \<and> task.completed (ts ! i)}
   \<and> stats_rec.active (stats ts) = card {i. i < length ts \<and> \<not> task.completed (ts ! i)}
   \<and> highPriority (stats ts) =
       card {i. i < length ts \<and> task.priority (ts ! i) = ''high'' \<and> \<not> task.completed (ts ! i)}"
  unfolding stats_def
  using length_filter_split [of "\<lambda>t. task.completed t" ts]
        length_filter_conj_le [of "\<lambda>t. task.priority t = ''high''" "\<lambda>t. \<not> task.completed t" ts]
  by (simp add: length_filter_conv_card)

text \<open>
  The scenario of two records, one high and open, one low and completed: the
  statistics are \<open>{total: 2, completed: 1, active: 1, highPriority: 1}\<close>.
\<close>

theorem stats_invariant_witness:
  "stats [taskA, taskB] = \<lparr>total = 2, completed = 1, active = 1, highPriority = 1\<rparr>
   \<and> stats_rec.active (stats [taskA, taskB]) + stats_rec.completed (stats [taskA, taskB]) = 2"
proof -
  have v: "stats [taskA, taskB] = \<lparr>total = 2, completed = 1, active = 1, highPriority = 1\<rparr>"
    by (simp add: stats_def taskA_def taskB_def)
  show ?thesis using v stats_invariant [of "[taskA, taskB]"] by simp
qed

section \<open>Creating a task\<close>

text \<open>
  \<open>trim\<close> leaves nothing exactly when every code unit of the string is white space.
\<close>

lemma all_dropWhile_iff: "(\<forall>x \<in> set (dropWhile P xs). P x) \<longleftrightarrow> (\<forall>x \<in> set xs. P x)"
proof
  assume a: "\<forall>x \<in> set (dropWhile P xs). P x"
  have "dropWhile P xs = []"
  proof (rule ccontr)
    assume n: "dropWhile P xs \<noteq> []"
    then have "\<not> P (hd (dropWhile P xs))" by (rule hd_dropWhile)
    moreover from n have "hd (dropWhile P xs) \<in> set (dropWhile P xs)" by simp
    ultimately show False using a by blast
  qed
  then show "\<forall>x \<in> set xs. P x" by (simp add: dropWhile_eq_Nil_conv)
next
  assume "\<forall>x \<in> set xs. P x"
  then show "\<forall>x \<in> set (dropWhile P xs). P x" by (auto dest: set_dropWhileD)
qed

lemma trim_empty_iff: "trim s = [] \<longleftrightarrow> (\<forall>c \<in> set s. isWhiteSpace c)"
  by (simp add: trim_def dropWhile_eq_Nil_conv all_dropWhile_iff)

text \<open>
  C2. When the title or the description is empty after trimming white space,
  \<open>addTask\<close> returns at once: it sets the validation banner, issues no request, and
  leaves the collection, the title input, the description input and the priority
  selection as they were.
\<close>

theorem addTask_rejects_blank:
  assumes "trim (app.title s) = [] \<or> trim (app.description s) = []"
  shows "addTask s = Finished (s\<lparr>error := msgFields\<rparr>)
     \<and> issued (addTask s) = []
     \<and> error (settle (addTask s) r) = msgFields \<and> msgFields \<noteq> []
     \<and> tasks (settle (addTask s) r) = tasks s
     \<and> app.title (settle (addTask s) r) = app.title s
     \<and> app.description (settle (addTask s) r) = app.description s
     \<and> app.priority (settle (addTask s) r) = app.priority s"
  using assms by (auto simp: addTask_def settle_def msgFields_def)

theorem addTask_rejects_blank_witness:
  "(trim (app.title blankForm) = [] \<or> trim (app.description blankForm) = [])
   \<and> issued (addTask blankForm) = []
   \<and> error (settle (addTask blankForm) NetworkFailure) = msgFields
   \<and> tasks (settle (addTask blankForm) NetworkFailure) = [taskA]
   \<and> app.title (settle (addTask blankForm) NetworkFailure) = ''   ''
   \<and> app.description (settle (addTask blankForm) NetworkFailure) = ''write''
   \<and> app.priority (settle (addTask blankForm) NetworkFailure) = ''medium''"
proof -
  have h: "trim (app.title blankForm) = [] \<or> trim (app.description blankForm) = []"
    by code_simp
  have v: "tasks blankForm = [taskA] \<and> app.title blankForm = ''   ''
      \<and> app.description blankForm = ''write'' \<and> app.priority blankForm = ''medium''"
    by (simp add: blankForm_def initial_def)
  show ?thesis
    using h v addTask_rejects_blank [OF h, of NetworkFailure] by (simp add: settle_def)
qed

text \<open>
  C5. When the trimmed title and the trimmed description are both non-empty,
  \<open>addTask\<close> posts the three fields as they stand in the form (untrimmed); on a
  successful response it puts the returned record in front of the collection it
  captured, the rest unchanged and in order, and clears the title input, the description
  input and the banner. It also resets the priority to \<open>'medium'\<close> and the loading
  flag.
\<close>

theorem addTask_success:
  assumes "trim (app.title s) \<noteq> []" and "trim (app.description s) \<noteq> []"
  shows "issued (addTask s) =
           [Request POST TasksUrl (Some (app.title s, app.description s, app.priority s))]
     \<and> resume (addTask s) (HttpResponse True (Some newTask)) cur =
         cur\<lparr>tasks := newTask # tasks s, title := [], description := [],
             priority := ''medium'', error := [], loading := False\<rparr>
     \<and> tasks (settle (addTask s) (HttpResponse True (Some newTask))) = newTask # tasks s
     \<and> app.title (settle (addTask s) (HttpResponse True (Some newTask))) = []
     \<and> app.description (settle (addTask s) (HttpResponse True (Some newTask))) = []
     \<and> error (settle (addTask s) (HttpResponse True (Some newTask))) = []"
  using assms by (simp add: addTask_def settle_def)

theorem addTask_success_witness:
  "trim (app.title filledForm) = ''B'' \<and> trim (app.description filledForm) = ''second''
   \<and> error filledForm = msgAdd
   \<and> tasks (settle (addTask filledForm) (HttpResponse True (Some taskB))) = [taskB, taskA]
   \<and> app.title (settle (addTask filledForm) (HttpResponse True (Some taskB))) = []
   \<and> app.description (settle (addTask filledForm) (HttpResponse True (Some taskB))) = []
   \<and> error (settle (addTask filledForm) (HttpResponse True (Some taskB))) = []"
proof -
  have t: "trim (app.title filledForm) = ''B''" by code_simp
  have d: "trim (app.description filledForm) = ''second''" by code_simp
  have h1: "trim (app.title filledForm) \<noteq> []" using t by simp
  have h2: "trim (app.description filledForm) \<noteq> []" using d by simp
  have v: "tasks filledForm = [taskA] \<and> error filledForm = msgAdd"
    by (simp add: filledForm_def initial_def)
  show ?thesis
    using t d v addTask_success [OF h1 h2, of taskB] by simp
qed

section \<open>The banner after a successful update\<close>

text \<open>
  What each handler does to the banner when its request succeeds: \<open>fetchTasks\<close>,
  \<open>addTask\<close> and \<open>deleteTask\<close> call \<open>setError('')\<close>; \<open>toggleTask\<close> has no such
  call and leaves the banner as it finds it.
\<close>

lemma success_clears_error:
  "error (resume (fetchTasks s) (HttpResponse True (Some data)) cur) = []"
  "trim (app.title s) \<noteq> [] \<Longrightarrow> trim (app.description s) \<noteq> [] \<Longrightarrow>
     error (resume (addTask s) (HttpResponse True (Some newTask)) cur) = []"
  "error (resume (deleteTask i s) (HttpResponse True js) cur) = []"
  by (simp_all add: fetchTasks_def addTask_def deleteTask_def)

lemma toggleTask_success_error_unchanged:
  "error (resume (toggleTask i s) (HttpResponse True (Some updatedTask)) cur) = error cur"
  by (simp add: toggleTask_def)

text \<open>
  C3. After every successful operation (load, create, toggle, delete) the error state
  is to be cleared. Load, create and delete clear it; a successful toggle does not.
  With the banner of a failed update showing, a toggle of record 1 that the server
  answers with the flipped record replaces the record in the collection and leaves the
  banner \<open>Failed to update task\<close> in place.
\<close>

theorem toggleTask_success_keeps_error:
  "error staleBanner = msgUpdate \<and> msgUpdate \<noteq> []
   \<and> tasks (settle (toggleTask 1 staleBanner)
        (HttpResponse True (Some (taskA\<lparr>task.completed := True\<rparr>))))
      = [taskA\<lparr>task.completed := True\<rparr>, taskB]
   \<and> error (settle (toggleTask 1 staleBanner)
        (HttpResponse True (Some (taskA\<lparr>task.completed := True\<rparr>))))
      = msgUpdate"
  by (simp add: toggleTask_def settle_def staleBanner_def initial_def taskA_def taskB_def
      msgUpdate_def)

section \<open>Toggling a task\<close>

text \<open>
  C4. A successful toggle maps over the captured collection: every position whose
  record has the given id holds the server's record verbatim afterwards, every other
  position holds the record it held, and length and order are those of the collection.
  When the request fails (the fetch rejects, the status is not ok, or the body does not
  parse) the collection is unchanged.
\<close>

theorem toggleTask_frame:
  "issued (toggleTask i s) = [Request PUT (TaskUrl i) None]
   \<and> tasks (resume (toggleTask i s) (HttpResponse True (Some updatedTask)) cur) =
       map (\<lambda>task. if id_task task = i then updatedTask else task) (tasks s)
   \<and> length (tasks (settle (toggleTask i s) (HttpResponse True (Some updatedTask)))) =
       length (tasks s)
   \<and> (\<forall>n < length (tasks s).
        tasks (settle (toggleTask i s) (HttpResponse True (Some updatedTask))) ! n =
          (if id_task (tasks s ! n) = i then updatedTask else tasks s ! n))
   \<and> tasks (resume (toggleTask i s) NetworkFailure cur) = tasks cur
   \<and> tasks (resume (toggleTask i s) (HttpResponse False js) cur) = tasks cur
   \<and> tasks (resume (toggleTask i s) (HttpResponse True None) cur) = tasks cur
   \<and> tasks (settle (toggleTask i s) NetworkFailure) = tasks s
   \<and> tasks (settle (toggleTask i s) (HttpResponse False js)) = tasks s
   \<and> tasks (settle (toggleTask i s) (HttpResponse True None)) = tasks s"
  by (simp add: toggleTask_def settle_def)

theorem toggleTask_frame_witness:
  "tasks (settle (toggleTask 2 staleBanner)
      (HttpResponse True (Some (taskB\<lparr>task.completed := False\<rparr>)))) ! 0 = taskA
   \<and> tasks (settle (toggleTask 2 staleBanner)
      (HttpResponse True (Some (taskB\<lparr>task.completed := False\<rparr>)))) ! 1 =
       taskB\<lparr>task.completed := False\<rparr>
   \<and> tasks (settle (toggleTask 2 staleBanner) NetworkFailure) = [taskA, taskB]"
proof -
  have v: "tasks staleBanner = [taskA, taskB] \<and> id_task taskA = 1 \<and> id_task taskB = 2"
    by (simp add: staleBanner_def initial_def taskA_def taskB_def)
  show ?thesis
    using v toggleTask_frame [of 2 staleBanner "taskB\<lparr>task.completed := False\<rparr>"]
    by simp
qed

section \<open>Deleting a task\<close>

text \<open>
  C9. A successful delete (an ok status; the body is never read) keeps exactly the
  records whose id differs from the given one, in their order, so that no record with
  that id remains, and clears the banner. When the request fails (the fetch rejects or
  the status is not ok) the collection is unchanged.
\<close>

theorem deleteTask_removes:
  fixes js :: "'a option"
  shows "issued (deleteTask i s :: 'a outcome) = [Request DELETE (TaskUrl i) None]
   \<and> tasks (resume (deleteTask i s) (HttpResponse True js) cur) =
       filter (\<lambda>task. id_task task \<noteq> i) (tasks s)
   \<and> error (resume (deleteTask i s) (HttpResponse True js) cur) = []
   \<and> tasks (settle (deleteTask i s) (HttpResponse True js)) =
       filter (\<lambda>task. id_task task \<noteq> i) (tasks s)
   \<and> (\<forall>t \<in> set (tasks (settle (deleteTask i s) (HttpResponse True js))). id_task t \<noteq> i)
   \<and> set (tasks (settle (deleteTask i s) (HttpResponse True js))) =
       {t \<in> set (tasks s). id_task t \<noteq> i}
   \<and> subseq (tasks (settle (deleteTask i s) (HttpResponse True js))) (tasks s)
   \<and> error (settle (deleteTask i s) (HttpResponse True js)) = []
   \<and> tasks (resume (deleteTask i s) (NetworkFailure :: 'a response) cur) = tasks cur
   \<and> tasks (resume (deleteTask i s) (HttpResponse False js) cur) = tasks cur
   \<and> tasks (settle (deleteTask i s) (NetworkFailure :: 'a response)) = tasks s
   \<and> tasks (settle (deleteTask i s) (HttpResponse False js)) = tasks s"
  by (simp add: deleteTask_def settle_def)

theorem deleteTask_removes_witness:
  "tasks (settle (deleteTask 1 staleBanner) (HttpResponse True (None :: unit option))) = [taskB]
   \<and> error (settle (deleteTask 1 staleBanner) (HttpResponse True (None :: unit option))) = []
   \<and> tasks (settle (deleteTask 1 staleBanner) (HttpResponse False (None :: unit option))) = [taskA, taskB]"
proof -
  have v: "tasks staleBanner = [taskA, taskB] \<and> id_task taskA = 1 \<and> id_task taskB = 2"
    by (simp add: staleBanner_def initial_def taskA_def taskB_def)
  show ?thesis
    using v deleteTask_removes [of 1 staleBanner "None :: unit option" staleBanner]
    by simp
qed

section \<open>Loading the collection\<close>

text \<open>
  C8. \<open>fetchTasks\<close> sets the loading flag, then issues \<open>GET /tasks\<close>. Whatever
  comes back, the loading flag is cleared afterwards. When the load fails (the fetch
  rejects, the status is not ok, or the body does not parse) the banner says that the
  backend is not running and the collection is the one held before; when it succeeds
  the collection is the returned one and the banner is cleared.
\<close>

theorem fetchTasks_failure:
  "issued (fetchTasks s) = [Request GET TasksUrl None]
   \<and> shown (fetchTasks s) = s\<lparr>loading := True\<rparr>
   \<and> loading (shown (fetchTasks s))
   \<and> \<not> loading (resume (fetchTasks s) r cur)
   \<and> resume (fetchTasks s) NetworkFailure cur = cur\<lparr>error := msgBackend, loading := False\<rparr>
   \<and> resume (fetchTasks s) (HttpResponse False js) cur =
       cur\<lparr>error := msgBackend, loading := False\<rparr>
   \<and> resume (fetchTasks s) (HttpResponse True None) cur =
       cur\<lparr>error := msgBackend, loading := False\<rparr>
   \<and> resume (fetchTasks s) (HttpResponse True (Some data)) cur =
       cur\<lparr>tasks := data, error := [], loading := False\<rparr>
   \<and> msgBackend \<noteq> []
   \<and> tasks (settle (fetchTasks s) NetworkFailure) = tasks s
   \<and> tasks (settle (fetchTasks s) (HttpResponse False js)) = tasks s
   \<and> error (settle (fetchTasks s) NetworkFailure) = msgBackend
   \<and> error (settle (fetchTasks s) (HttpResponse False js)) = msgBackend
   \<and> \<not> loading (settle (fetchTasks s) r)"
  by (cases r) (auto simp: fetchTasks_def settle_def msgBackend_def split: option.splits)

theorem fetchTasks_failure_witness:
  "loading (shown (fetchTasks staleBanner))
   \<and> tasks (settle (fetchTasks staleBanner) NetworkFailure) = [taskA, taskB]
   \<and> error (settle (fetchTasks staleBanner) NetworkFailure) = msgBackend
   \<and> \<not> loading (settle (fetchTasks staleBanner) NetworkFailure)"
proof -
  have v: "tasks staleBanner = [taskA, taskB]"
    by (simp add: staleBanner_def initial_def)
  show ?thesis
    using v fetchTasks_failure [of staleBanner NetworkFailure] by simp
qed

section \<open>Filtering\<close>

text \<open>
  \<open>includes\<close> holds exactly when the query occurs in the string as a contiguous
  block. The empty query occurs in every string, and status \<open>'all'\<close> admits every
  record.
\<close>

lemma includes_str_iff: "includes_str s q \<longleftrightarrow> (\<exists>ps ss. s = ps @ q @ ss)"
proof (induction s)
  case Nil
  show ?case by simp
next
  case (Cons c cs)
  have "includes_str (c # cs) q \<longleftrightarrow> prefix q (c # cs) \<or> sublist q cs"
    using Cons.IH by (simp add: sublist_def)
  also have "\<dots> \<longleftrightarrow> sublist q (c # cs)"
    by (simp add: sublist_Cons_right)
  finally show ?case by (simp add: sublist_def)
qed

lemma includes_str_empty: "includes_str s []"
  by (cases s) simp_all

lemma matchesSearch_empty: "matchesSearch [] t"
  by (simp add: matchesSearch_def toLowerCase_def includes_str_empty)

lemma matchesFilter_all: "matchesFilter ''all'' t"
  by (simp add: matchesFilter_def)

lemma lower_Alpha: "includes_str (toLowerCase ''Alpha'') (toLowerCase ''a'')"
  by code_simp

lemma lower_Beta: "includes_str (toLowerCase ''Beta'') (toLowerCase ''a'')"
  by code_simp

text \<open>
  C6. Filtering is idempotent: filtering the visible subset again with the same query
  and status gives the same subset. It is commutative: restricting by the query alone
  (status \<open>'all'\<close>) and then by the status alone (empty query) gives the same subset as
  the other order, which is the subset the filter computes in one pass; the same holds
  of the two predicates applied one after the other. The filter is a function of the
  collection, the query and the status and returns a new list: the collection it reads
  is not changed.
\<close>

theorem filteredTasks_idempotent_commutative:
  "filteredTasks (filteredTasks ts query status) query status = filteredTasks ts query status
   \<and> filteredTasks (filteredTasks ts query ''all'') [] status = filteredTasks ts query status
   \<and> filteredTasks (filteredTasks ts [] status) query ''all'' = filteredTasks ts query status
   \<and> filter (matchesFilter status) (filter (matchesSearch query) ts) =
       filter (matchesSearch query) (filter (matchesFilter status) ts)
   \<and> filter (matchesFilter status) (filter (matchesSearch query) ts) =
       filteredTasks ts query status"
  by (auto simp: filteredTasks_def matchesSearch_empty matchesFilter_all intro: filter_cong)

theorem filteredTasks_idempotent_commutative_witness:
  "filteredTasks (filteredTasks [taskA, taskB, taskAlpha] ''a'' ''active'') ''a'' ''active'' =
     [taskA, taskAlpha]
   \<and> filteredTasks (filteredTasks [taskA, taskB, taskAlpha] ''a'' ''all'') [] ''active'' =
     [taskA, taskAlpha]
   \<and> filteredTasks (filteredTasks [taskA, taskB, taskAlpha] [] ''active'') ''a'' ''all'' =
     [taskA, taskAlpha]"
proof -
  have v: "filteredTasks [taskA, taskB, taskAlpha] ''a'' ''active'' = [taskA, taskAlpha]"
    by code_simp
  show ?thesis
    using v filteredTasks_idempotent_commutative
      [of "[taskA, taskB, taskAlpha]" "''a''" "''active''"]
    by simp
qed

text \<open>
  C7. The visible subset consists of exactly the records, in the collection's order,
  whose lower-cased title or lower-cased description contains the lower-cased query as
  a contiguous block and whose completed flag matches the status (\<open>'all'\<close>: any;
  \<open>'active'\<close>: flag false; \<open>'completed'\<close>: flag true; any other status admits no
  record). In particular the query \<open>a\<close> matches a record titled \<open>Alpha\<close> and a
  record titled \<open>Beta\<close>, and status \<open>'completed'\<close> over a collection with no
  completed record gives the empty subset.
\<close>

theorem filteredTasks_visible:
  "filteredTasks ts query status =
     filter (\<lambda>t.
        ((\<exists>ps ss. toLowerCase (task.title t) = ps @ toLowerCase query @ ss) \<or>
         (\<exists>ps ss. toLowerCase (task.description t) = ps @ toLowerCase query @ ss)) \<and>
        (status = ''all'' \<or>
         (status = ''active'' \<and> \<not> task.completed t) \<or>
         (status = ''completed'' \<and> task.completed t))) ts
   \<and> subseq (filteredTasks ts query status) ts
   \<and> (task.title x = ''Alpha'' \<or> task.title x = ''Beta'' \<longrightarrow> matchesSearch ''a'' x)
   \<and> ((\<forall>t \<in> set ts. \<not> task.completed t) \<longrightarrow> filteredTasks ts query ''completed'' = [])"
proof -
  have "filteredTasks ts query status =
     filter (\<lambda>t.
        ((\<exists>ps ss. toLowerCase (task.title t) = ps @ toLowerCase query @ ss) \<or>
         (\<exists>ps ss. toLowerCase (task.description t) = ps @ toLowerCase query @ ss)) \<and>
        (status = ''all'' \<or>
         (status = ''active'' \<and> \<not> task.completed t) \<or>
         (status = ''completed'' \<and> task.completed t))) ts"
    by (simp add: filteredTasks_def matchesSearch_def matchesFilter_def includes_str_iff)
  moreover have "subseq (filteredTasks ts query status) ts"
    by (simp add: filteredTasks_def)
  moreover have "task.title x = ''Alpha'' \<or> task.title x = ''Beta'' \<longrightarrow> matchesSearch ''a'' x"
    using lower_Alpha lower_Beta by (auto simp: matchesSearch_def)
  moreover have "(\<forall>t \<in> set ts. \<not> task.completed t) \<longrightarrow> filteredTasks ts query ''completed'' = []"
    by (simp add: filteredTasks_def matchesFilter_def filter_empty_conv)
  ultimately show ?thesis by blast
qed

theorem filteredTasks_visible_witness:
  "filteredTasks [taskAlpha, taskBeta] ''a'' ''all'' = [taskAlpha, taskBeta]
   \<and> matchesSearch ''a'' taskAlpha \<and> matchesSearch ''a'' taskBeta
   \<and> \<not> task.completed taskAlpha \<and> \<not> task.completed taskBeta
   \<and> filteredTasks [taskAlpha, taskBeta] ''a'' ''completed'' = []"
proof -
  have a: "task.title taskAlpha = ''Alpha'' \<or> task.title taskAlpha = ''Beta''"
    by (simp add: taskAlpha_def)
  have b: "task.title taskBeta = ''Alpha'' \<or> task.title taskBeta = ''Beta''"
    by (simp add: taskBeta_def)
  have c: "\<forall>t \<in> set [taskAlpha, taskBeta]. \<not> task.completed t"
    by (simp add: taskAlpha_def taskBeta_def)
  have m: "matchesFilter ''all'' taskAlpha \<and> matchesFilter ''all'' taskBeta"
    by (simp add: matchesFilter_def)
  note w1 = filteredTasks_visible [of "[taskAlpha, taskBeta]" "''a''" "''all''" taskAlpha]
  note w2 = filteredTasks_visible [of "[taskAlpha, taskBeta]" "''a''" "''completed''" taskBeta]
  have ma: "matchesSearch ''a'' taskAlpha" using a w1 by blast
  have mb: "matchesSearch ''a'' taskBeta" using b w2 by blast
  have e: "filteredTasks [taskAlpha, taskBeta] ''a'' ''completed'' = []" using c w2 by blast
  show ?thesis using ma mb m c e by (simp add: filteredTasks_def)
qed

section \<open>Rounding to a double\<close>

text \<open>
  The rounding of the model is correct rounding: the exponent is the binary exponent,
  the result lies in the binade of its argument, within half a unit in the last place of
  it, and rounding is monotone.
\<close>

lemma roundTiesToEven_of_int: "roundTiesToEven (of_int n) = n"
  by (simp add: roundTiesToEven_def)

lemma roundTiesToEven_range:
  "\<lfloor>x\<rfloor> \<le> roundTiesToEven x \<and> roundTiesToEven x \<le> \<lfloor>x\<rfloor> + 1"
  by (simp add: roundTiesToEven_def Let_def)

lemma roundTiesToEven_mono:
  assumes "x \<le> y"
  shows "roundTiesToEven x \<le> roundTiesToEven y"
proof (cases "\<lfloor>x\<rfloor> = \<lfloor>y\<rfloor>")
  case True
  then have "x - of_int \<lfloor>x\<rfloor> \<le> y - of_int \<lfloor>y\<rfloor>"
    using assms by simp
  then show ?thesis
    using True by (auto simp: roundTiesToEven_def Let_def)
next
  case False
  then have "\<lfloor>x\<rfloor> + 1 \<le> \<lfloor>y\<rfloor>"
    using floor_mono [OF assms] by linarith
  then show ?thesis
    using roundTiesToEven_range [of x] roundTiesToEven_range [of y] by linarith
qed

lemma pow2_less_cancel:
  assumes "(2::rat) powi a < 2 powi b"
  shows "a < b"
proof (rule ccontr)
  assume "\<not> a < b"
  then have "b \<le> a" by simp
  then have "(2::rat) powi b \<le> 2 powi a"
    by (rule power_int_increasing) simp
  with assms show False by simp
qed

lemma expo_bounds:
  assumes "0 < x"
  shows "2 powi (expo x) \<le> x \<and> x < 2 powi (expo x + 1)"
proof -
  obtain p q where pq: "quotient_of x = (p, q)"
    by (cases "quotient_of x")
  have q: "0 < q" using pq by (rule quotient_of_denom_pos)
  have x: "x = of_int p / of_int q" using pq by (rule quotient_of_div)
  have p: "0 < p"
    using assms q unfolding x by (simp add: zero_less_divide_iff)
  define bp bq where "bp = bitlen p" and "bq = bitlen q"
  have bp: "2 ^ nat (bp - 1) \<le> p" "p < 2 ^ nat bp"
    using bitlen_bounds [OF p] by (simp_all add: bp_def)
  have bq: "2 ^ nat (bq - 1) \<le> q" "q < 2 ^ nat bq"
    using bitlen_bounds [OF q] by (simp_all add: bq_def)
  have bp1: "1 \<le> bp"
  proof (rule ccontr)
    assume "\<not> 1 \<le> bp"
    then have "nat bp = 0" by simp
    with bp(2) p show False by simp
  qed
  have bq1: "1 \<le> bq"
  proof (rule ccontr)
    assume "\<not> 1 \<le> bq"
    then have "nat bq = 0" by simp
    with bq(2) q show False by simp
  qed
  have P1: "(2::rat) powi (bp - 1) \<le> of_int p"
  proof -
    have "(of_int (2 ^ nat (bp - 1)) :: rat) \<le> of_int p"
      using bp(1) by (simp only: of_int_le_iff)
    then show ?thesis using bp1 by (simp add: power_int_def)
  qed
  have P2: "of_int p < (2::rat) powi bp"
  proof -
    have "(of_int p :: rat) < of_int (2 ^ nat bp)"
      using bp(2) by (simp only: of_int_less_iff)
    then show ?thesis using bp1 by (simp add: power_int_def)
  qed
  have Q1: "(2::rat) powi (bq - 1) \<le> of_int q"
  proof -
    have "(of_int (2 ^ nat (bq - 1)) :: rat) \<le> of_int q"
      using bq(1) by (simp only: of_int_le_iff)
    then show ?thesis using bq1 by (simp add: power_int_def)
  qed
  have Q2: "of_int q < (2::rat) powi bq"
  proof -
    have "(of_int q :: rat) < of_int (2 ^ nat bq)"
      using bq(2) by (simp only: of_int_less_iff)
    then show ?thesis using bq1 by (simp add: power_int_def)
  qed
  have qpos: "(0::rat) < of_int q" using q by simp
  have low: "(2::rat) powi (bp - bq - 1) \<le> x"
  proof -
    have "(2::rat) powi (bp - bq - 1) = 2 powi (bp - 1) / 2 powi bq"
      using power_int_diff [of "2::rat" "bp - 1" bq] by (simp add: algebra_simps)
    also have "\<dots> \<le> of_int p / 2 powi bq"
      using P1 by (simp add: divide_right_mono)
    also have "\<dots> \<le> of_int p / of_int q"
      using Q2 qpos p by (intro divide_left_mono) (simp_all add: less_imp_le)
    finally show ?thesis by (simp add: x)
  qed
  have high: "x < (2::rat) powi (bp - bq + 1)"
  proof -
    have "x = of_int p / of_int q" by (rule x)
    also have "\<dots> < 2 powi bp / of_int q"
      using P2 qpos by (simp add: divide_strict_right_mono)
    also have "\<dots> \<le> 2 powi bp / 2 powi (bq - 1)"
      using Q1 qpos by (intro divide_left_mono) simp_all
    also have "\<dots> = 2 powi (bp - bq + 1)"
      using power_int_diff [of "2::rat" bp "bq - 1"] by (simp add: algebra_simps)
    finally show ?thesis .
  qed
  show ?thesis
  proof (cases "(2::rat) powi (bp - bq) \<le> x")
    case True
    then have "expo x = bp - bq"
      by (simp add: expo_def pq bp_def bq_def)
    with True high show ?thesis by simp
  next
    case False
    then have "expo x = bp - bq - 1"
      by (simp add: expo_def pq bp_def bq_def)
    with False low show ?thesis by simp
  qed
qed

lemma expo_mono:
  assumes "0 < x" and "x \<le> y"
  shows "expo x \<le> expo y"
proof -
  have "2 powi (expo x) \<le> x" using expo_bounds [OF assms(1)] by simp
  also have "x \<le> y" by fact
  also have "y < 2 powi (expo y + 1)" using expo_bounds [of y] assms by simp
  finally have "expo x < expo y + 1" by (rule pow2_less_cancel)
  then show ?thesis by simp
qed

lemma double_pos_eq:
  assumes "0 < x"
  shows "double x = of_int (roundTiesToEven (x / 2 powi (expo x - 52))) * 2 powi (expo x - 52)"
  using assms by (simp add: double_def Let_def)

lemma double_binade:
  assumes "0 < x"
  shows "2 powi (expo x) \<le> double x \<and> double x \<le> 2 powi (expo x + 1)"
proof -
  define u :: rat where "u = 2 powi (expo x - 52)"
  have u: "0 < u" by (simp add: u_def)
  have lo: "2 powi (expo x) = of_int (2 ^ 52) * u"
    using power_int_add [of "2::rat" 52 "expo x - 52"] by (simp add: u_def)
  have hi: "2 powi (expo x + 1) = of_int (2 ^ 53) * u"
    using power_int_add [of "2::rat" 53 "expo x - 52"] by (simp add: u_def add.commute)
  have "of_int (2 ^ 52) * u \<le> x" "x < of_int (2 ^ 53) * u"
    using expo_bounds [OF assms] lo hi by simp_all
  then have "of_int (2 ^ 52) \<le> x / u" "x / u \<le> of_int (2 ^ 53)"
    using u by (simp_all add: pos_le_divide_eq pos_divide_le_eq less_imp_le)
  then have "2 ^ 52 \<le> roundTiesToEven (x / u)" "roundTiesToEven (x / u) \<le> 2 ^ 53"
    using roundTiesToEven_mono [of "of_int (2 ^ 52)" "x / u"]
      roundTiesToEven_mono [of "x / u" "of_int (2 ^ 53)"]
    by (simp_all only: roundTiesToEven_of_int)
  then have "(of_int (2 ^ 52) :: rat) \<le> of_int (roundTiesToEven (x / u))"
    "(of_int (roundTiesToEven (x / u)) :: rat) \<le> of_int (2 ^ 53)"
    by (simp_all only: of_int_le_iff)
  then have "of_int (2 ^ 52) * u \<le> of_int (roundTiesToEven (x / u)) * u"
    "of_int (roundTiesToEven (x / u)) * u \<le> of_int (2 ^ 53) * u"
    using u by (simp_all only: mult_le_cancel_right_pos)
  then show ?thesis
    unfolding double_pos_eq [OF assms] lo hi u_def by simp
qed

lemma double_mono_pos:
  assumes "0 < x" and "x \<le> y"
  shows "double x \<le> double y"
proof (cases "expo x = expo y")
  case True
  define u :: rat where "u = 2 powi (expo y - 52)"
  have u: "0 < u" by (simp add: u_def)
  have "x / u \<le> y / u" using assms u by (simp add: divide_right_mono)
  then have "roundTiesToEven (x / u) \<le> roundTiesToEven (y / u)"
    by (rule roundTiesToEven_mono)
  then have "(of_int (roundTiesToEven (x / u)) :: rat) * u \<le> of_int (roundTiesToEven (y / u)) * u"
    using u by simp
  moreover have "0 < y" using assms by simp
  ultimately show ?thesis
    using assms(1) True by (simp add: double_pos_eq u_def)
next
  case False
  have y: "0 < y" using assms by simp
  have "expo x + 1 \<le> expo y"
    using False expo_mono [OF assms] by simp
  then have "(2::rat) powi (expo x + 1) \<le> 2 powi (expo y)"
    by (rule power_int_increasing) simp
  then show ?thesis
    using double_binade [OF assms(1)] double_binade [OF y] by linarith
qed

lemma double_zero: "double 0 = 0"
  by (simp add: double_def)

lemma double_nonneg: "0 \<le> x \<Longrightarrow> 0 \<le> double x"
proof (cases "x = 0")
  case True
  then show ?thesis by (simp add: double_zero)
next
  case False
  assume "0 \<le> x"
  with False have x: "0 < x" by simp
  have "(0::rat) < 2 powi (expo x)" by simp
  then show ?thesis using double_binade [OF x] by linarith
qed

lemma double_mono:
  assumes "0 \<le> x" and "x \<le> y"
  shows "double x \<le> double y"
proof (cases "x = 0")
  case True
  then show ?thesis using assms double_nonneg [of y] by (simp add: double_zero)
next
  case False
  then show ?thesis using assms double_mono_pos [of x y] by simp
qed

lemma double_1: "double 1 = 1" by code_simp
lemma double_100: "double 100 = 100" by code_simp

lemma roundTiesToEven_nearest: "\<bar>of_int (roundTiesToEven y) - y\<bar> \<le> 1 / 2"
proof -
  have "of_int \<lfloor>y\<rfloor> \<le> y" "y < of_int \<lfloor>y\<rfloor> + 1" by linarith+
  then show ?thesis
    by (auto simp: roundTiesToEven_def Let_def abs_le_iff)
qed

lemma double_nearest:
  assumes "0 < x"
  shows "\<bar>double x - x\<bar> \<le> 2 powi (expo x - 53)"
proof -
  define u :: rat where "u = 2 powi (expo x - 52)"
  have u: "0 < u" by (simp add: u_def)
  have half: "2 powi (expo x - 53) = u / 2"
    using power_int_diff [of "2::rat" "expo x - 52" 1] by (simp add: u_def)
  have "double x - x = (of_int (roundTiesToEven (x / u)) - x / u) * u"
    using u by (simp add: double_pos_eq [OF assms] u_def [symmetric] left_diff_distrib)
  then have "\<bar>double x - x\<bar> = \<bar>of_int (roundTiesToEven (x / u)) - x / u\<bar> * u"
    using u by (simp add: abs_mult)
  also have "\<dots> \<le> (1 / 2) * u"
    using roundTiesToEven_nearest [of "x / u"] u by (intro mult_right_mono) simp_all
  finally show ?thesis by (simp add: half)
qed

section \<open>Completion percentage\<close>

lemma percentage_range:
  assumes "c \<le> t" and "0 < t"
  shows "0 \<le> round (double (double (of_nat c / of_nat t) * 100))
       \<and> round (double (double (of_nat c / of_nat t) * 100)) \<le> 100"
proof -
  define q :: rat where "q = of_nat c / of_nat t"
  have q: "0 \<le> q" "q \<le> 1"
    using assms by (simp_all add: q_def)
  have d1: "0 \<le> double q" "double q \<le> 1"
    using double_nonneg [OF q(1)] double_mono [OF q] by (simp_all add: double_1)
  then have m: "0 \<le> double q * 100" "double q * 100 \<le> 100" by simp_all
  have d2: "0 \<le> double (double q * 100)" "double (double q * 100) \<le> 100"
    using double_nonneg [OF m(1)] double_mono [OF m] by (simp_all add: double_100)
  have "round (0::rat) \<le> round (double (double q * 100))"
    "round (double (double q * 100)) \<le> round (100::rat)"
    using d2 by (simp_all only: round_mono)
  then show ?thesis by (simp add: q_def)
qed

text \<open>
  C10. The completion percentage is computed with a guarded division: it is 0 when the
  collection is empty, and otherwise \<open>Math.round\<close> of \<open>(completed / total) * 100\<close>,
  the quotient and the product each rounded to a double. The division by zero is never
  evaluated, so the result is never \<open>NaN\<close> or \<open>Infinity\<close>: it is always an integer
  between 0 and 100 inclusive.
\<close>

theorem completionPercentage_guarded:
  "(ts = [] \<longrightarrow> completionPercentage ts = Num 0)
   \<and> (ts \<noteq> [] \<longrightarrow>
        completionPercentage ts =
          Num (of_int (round (double (double
            (of_nat (stats_rec.completed (stats ts)) / of_nat (total (stats ts))) * 100)))))
   \<and> completionPercentage ts \<noteq> NaN \<and> completionPercentage ts \<noteq> PosInfinity
   \<and> (\<exists>n. completionPercentage ts = Num (of_int n) \<and> 0 \<le> n \<and> n \<le> 100)"
proof (cases "ts = []")
  case True
  then have e: "completionPercentage ts = Num 0"
    by (simp add: completionPercentage_def stats_def)
  then have "completionPercentage ts = Num (of_int 0) \<and> (0::int) \<le> 0 \<and> (0::int) \<le> 100"
    by simp
  then have "\<exists>n. completionPercentage ts = Num (of_int n) \<and> 0 \<le> n \<and> n \<le> 100"
    by (rule exI)
  then show ?thesis using True e by simp
next
  case False
  define c t where "c = stats_rec.completed (stats ts)" and "t = total (stats ts)"
  have t: "0 < t" using False by (simp add: t_def stats_def)
  have c: "c \<le> t" by (simp add: c_def t_def stats_def)
  define n where "n = round (double (double (of_nat c / of_nat t :: rat) * 100))"
  have eq: "completionPercentage ts = Num (of_int n)"
    using t by (simp add: completionPercentage_def number_div_def n_def c_def t_def)
  have "0 \<le> n \<and> n \<le> 100"
    unfolding n_def using c t by (rule percentage_range)
  then show ?thesis
    using False eq by (auto simp: n_def c_def t_def)
qed

theorem completionPercentage_guarded_witness:
  "completionPercentage [] = Num 0
   \<and> [taskA, taskB] \<noteq> []
   \<and> completionPercentage [taskA, taskB] = Num 50"
proof -
  have e: "completionPercentage [] = Num 0"
    using completionPercentage_guarded [of "[]"] by simp
  have ne: "[taskA, taskB] \<noteq> []" by simp
  have "completionPercentage [taskA, taskB] =
      Num (of_int (round (double (double
        (of_nat (stats_rec.completed (stats [taskA, taskB])) /
         of_nat (total (stats [taskA, taskB]))) * 100))))"
    using ne completionPercentage_guarded [of "[taskA, taskB]"] by blast
  also have "\<dots> = Num 50" by code_simp
  finally show ?thesis using e ne by simp
qed

text \<open>
  The double arithmetic shows: with 29 of 200 tasks completed the quotient rounds below
  0.145, the product to 14.499999999999998, and the percentage shown is 14, where exact
  arithmetic would round 14.5 to 15.
\<close>

lemma percentage_29_of_200:
  "Math_round (times100 (number_div 29 200)) = Num 14
   \<and> round ((29 / 200) * 100 :: rat) = 15"
  by code_simp

end
